theory Spec2Isabelle
  imports Main "HOL-Library.Word" "HOL-Library.AList"
begin

section \<open>Data and collaborators of \<open>app/upstream.go\<close>\<close>

text \<open>
  Go strings are byte sequences: they are modelled as \<open>string\<close> (a list of 8-bit
  characters), and \<open>len\<close> is \<open>length\<close>. \<open>utils.StringToByteSlice\<close> and
  \<open>utils.ByteSliceToString\<close> reinterpret the same bytes and are the identity here.
\<close>

type_synonym int64 = "64 word"

text \<open>
  Modelled from the spec: the struct \<open>Traffic\<close> is declared outside \<open>upstream.go\<close>;
  the spec gives it as the pair of \<open>int64\<close> counters up and down. The Go operator
  \<open>+=\<close> on \<open>int64\<close> wraps around, as \<open>+\<close> on \<open>64 word\<close> does; \<open>sint\<close> reads
  the signed value.
\<close>

record Traffic =
  Up :: int64
  Down :: int64

subsection \<open>\<open>base64.StdEncoding.EncodeToString\<close>\<close>

definition encodeStd :: string where
  "encodeStd = ''ABCDEFGHIJKLMNOPQRSTUVWXYZabcdefghijklmnopqrstuvwxyz0123456789+/''"

text \<open>\<open>enc.encode[val >> n & 0x3F]\<close>, with \<open>val >> n\<close> already taken by the caller.\<close>

definition encode6 :: "nat \<Rightarrow> char" where
  "encode6 v = encodeStd ! (v mod 64)"

text \<open>
  Three source bytes make the 24-bit value \<open>val\<close> and four output characters; a
  remainder of one or two bytes is padded with \<open>=\<close>.
\<close>

fun EncodeToString :: "string \<Rightarrow> string" where
  "EncodeToString [] = []"
| "EncodeToString [a] =
     (let val = of_char a * 65536
      in [encode6 (val div 262144), encode6 (val div 4096), CHR ''='', CHR ''=''])"
| "EncodeToString [a, b] =
     (let val = of_char a * 65536 + of_char b * 256
      in [encode6 (val div 262144), encode6 (val div 4096), encode6 (val div 64), CHR ''=''])"
| "EncodeToString (a # b # c # src) =
     (let val = of_char a * 65536 + of_char b * 256 + of_char c
      in [encode6 (val div 262144), encode6 (val div 4096), encode6 (val div 64), encode6 val]
         @ EncodeToString src)"

subsection \<open>Constants\<close>

text \<open>
  Modelled from the spec: \<open>trojan.HeaderLen\<close>, the length of a derived key, is declared
  in package \<open>trojan\<close>. The comment at each \<open>AuthLen\<close> gives the derived key as the hex
  encoding of a SHA-224 digest, which is 56 bytes; its base64 encoding has \<open>AuthLen\<close> = 76
  bytes.
\<close>

definition HeaderLen :: nat where
  "HeaderLen = 56"

definition AuthLen :: nat where
  "AuthLen = 76"

text \<open>
  \<open>trojan.GenKey\<close> (the key derivation) is not part of \<open>upstream.go\<close>: \<open>Add\<close> and
  \<open>Del\<close> take it as the parameter \<open>GenKey\<close>, the function from a secret to the
  content of the buffer \<open>b\<close> after the call. The buffer is an array of \<open>HeaderLen\<close>
  bytes; the properties that depend on it assume \<open>length (GenKey s) = HeaderLen\<close>.
\<close>

type_synonym derivation = "string \<Rightarrow> string"

section \<open>\<open>MemoryUpstream\<close>\<close>

text \<open>
  The field \<open>mm\<close> is a Go map: \<open>None\<close> is the nil map, \<open>Some m\<close> an allocated map
  with the entries of the association list \<open>m\<close>. The mutex \<open>mu\<close> has no part in a
  sequential run and is left out.
\<close>

record MemoryUpstream =
  mm :: "(string \<times> Traffic) list option"

text \<open>\<open>new(MemoryUpstream)\<close>, the value the module constructor returns.\<close>

definition new_MemoryUpstream :: MemoryUpstream where
  "new_MemoryUpstream = \<lparr>mm = None\<rparr>"

datatype panic = AssignmentToEntryInNilMap

datatype call =
    CallStore string string
  | CallLoad string
  | CallDelete string
  | CallList string bool
  | CallLock string
  | CallUnlock string

datatype error =
    ErrNotExist string
  | ErrIO call
  | ErrJSON string

text \<open>
  A method that returns \<open>error\<close> yields the receiver after the call and the error
  (\<open>None\<close> is \<open>nil\<close>); a panic is \<open>Inl\<close>.
\<close>

definition MemoryUpstream_AddKey ::
  "MemoryUpstream \<Rightarrow> string \<Rightarrow> panic + (MemoryUpstream \<times> error option)" where
  "MemoryUpstream_AddKey u k =
     (let key = EncodeToString k
      in case mm u of
           None \<Rightarrow> Inl AssignmentToEntryInNilMap
         | Some m \<Rightarrow> Inr (u\<lparr>mm := Some (AList.update key \<lparr>Up = 0, Down = 0\<rparr> m)\<rparr>, None))"

definition MemoryUpstream_Add ::
  "derivation \<Rightarrow> MemoryUpstream \<Rightarrow> string \<Rightarrow> panic + (MemoryUpstream \<times> error option)" where
  "MemoryUpstream_Add GenKey u s = MemoryUpstream_AddKey u (GenKey s)"

text \<open>\<open>delete\<close> on a nil map, or of a missing key, does nothing.\<close>

definition MemoryUpstream_DelKey ::
  "MemoryUpstream \<Rightarrow> string \<Rightarrow> panic + (MemoryUpstream \<times> error option)" where
  "MemoryUpstream_DelKey u k =
     (let key = EncodeToString k
      in case mm u of
           None \<Rightarrow> Inr (u, None)
         | Some m \<Rightarrow> Inr (u\<lparr>mm := Some (AList.delete key m)\<rparr>, None))"

definition MemoryUpstream_Del ::
  "derivation \<Rightarrow> MemoryUpstream \<Rightarrow> string \<Rightarrow> panic + (MemoryUpstream \<times> error option)" where
  "MemoryUpstream_Del GenKey u s = MemoryUpstream_DelKey u (GenKey s)"

text \<open>
  \<open>Range\<close> yields the calls of \<open>fn\<close> it makes, in order. Go leaves the order of a
  map iteration open; the list order stands for it.
\<close>

type_synonym visit = "string \<times> int64 \<times> int64"

definition MemoryUpstream_Range :: "MemoryUpstream \<Rightarrow> visit list" where
  "MemoryUpstream_Range u =
     (case mm u of
        None \<Rightarrow> []
      | Some m \<Rightarrow> map (\<lambda>(k, v). (k, Up v, Down v)) m)"

definition MemoryUpstream_Validate :: "MemoryUpstream \<Rightarrow> string \<Rightarrow> bool" where
  "MemoryUpstream_Validate u k =
     (let k = (if length k \<noteq> AuthLen then EncodeToString k else k)
      in case mm u of
           None \<Rightarrow> False
         | Some m \<Rightarrow> map_of m k \<noteq> None)"

text \<open>Reading a missing key (also of a nil map) gives the zero \<open>Traffic\<close>.\<close>

definition MemoryUpstream_Consume ::
  "MemoryUpstream \<Rightarrow> string \<Rightarrow> int64 \<Rightarrow> int64 \<Rightarrow> panic + (MemoryUpstream \<times> error option)" where
  "MemoryUpstream_Consume u k nr nw =
     (let k = (if length k \<noteq> AuthLen then EncodeToString k else k);
          traffic = (case mm u of
                       None \<Rightarrow> \<lparr>Up = 0, Down = 0\<rparr>
                     | Some m \<Rightarrow> (case map_of m k of
                                   None \<Rightarrow> \<lparr>Up = 0, Down = 0\<rparr>
                                 | Some t \<Rightarrow> t));
          traffic = traffic\<lparr>Up := Up traffic + nr\<rparr>;
          traffic = traffic\<lparr>Down := Down traffic + nw\<rparr>
      in case mm u of
           None \<Rightarrow> Inl AssignmentToEntryInNilMap
         | Some m \<Rightarrow> Inr (u\<lparr>mm := Some (AList.update k traffic m)\<rparr>, None))"

section \<open>The storage collaborator\<close>

text \<open>
  Modelled from the spec: \<open>certmagic.Storage\<close> is an interface of another module. The
  spec gives its operations: \<open>Exists\<close>, \<open>Store\<close>, \<open>Load\<close>, \<open>Delete\<close>, \<open>List\<close>,
  \<open>Lock\<close> and \<open>Unlock\<close> on string keys and byte values, where \<open>Store\<close>, \<open>Load\<close>,
  \<open>Delete\<close> and \<open>List\<close> may report an I/O failure. The model is a key-value table
  \<open>files\<close>; \<open>fails\<close> tells which calls the collaborator reports as failed; \<open>held\<close>
  lists the keys whose lock has been granted and not released; \<open>calls\<close> is the log of
  the calls that ask for a change (\<open>Store\<close>, \<open>Delete\<close>, \<open>Lock\<close>, \<open>Unlock\<close>),
  oldest first. \<open>Lock\<close> waits until the lock is granted; a sequential run records the
  grant. The source discards what \<open>Lock\<close> and \<open>Unlock\<close> return, so they return
  nothing here. The context argument is \<open>context.Background()\<close> everywhere and is left
  out.
\<close>

record storage =
  files :: "(string \<times> string) list"
  held :: "string list"
  fails :: "call \<Rightarrow> bool"
  calls :: "call list"

definition Exists :: "storage \<Rightarrow> string \<Rightarrow> bool" where
  "Exists st key = (map_of (files st) key \<noteq> None)"

definition Load :: "storage \<Rightarrow> string \<Rightarrow> error + string" where
  "Load st key =
     (if fails st (CallLoad key) then Inl (ErrIO (CallLoad key))
      else case map_of (files st) key of
             None \<Rightarrow> Inl (ErrNotExist key)
           | Some b \<Rightarrow> Inr b)"

definition Store :: "storage \<Rightarrow> string \<Rightarrow> string \<Rightarrow> storage \<times> error option" where
  "Store st key b =
     (let st' = st\<lparr>calls := calls st @ [CallStore key b]\<rparr>
      in if fails st (CallStore key b) then (st', Some (ErrIO (CallStore key b)))
         else (st'\<lparr>files := AList.update key b (files st)\<rparr>, None))"


text \<open>\<open>strings.HasPrefix\<close> and \<open>strings.TrimPrefix\<close>.\<close>

definition HasPrefix :: "string \<Rightarrow> string \<Rightarrow> bool" where
  "HasPrefix s pre = (length pre \<le> length s \<and> take (length pre) s = pre)"

definition TrimPrefix :: "string \<Rightarrow> string \<Rightarrow> string" where
  "TrimPrefix s pre = (if HasPrefix s pre then drop (length pre) s else s)"

definition List :: "storage \<Rightarrow> string \<Rightarrow> bool \<Rightarrow> error + string list" where
  "List st pre recursive =
     (if fails st (CallList pre recursive) then Inl (ErrIO (CallList pre recursive))
      else Inr (filter (\<lambda>key. HasPrefix key pre) (map fst (files st))))"

definition Lock :: "storage \<Rightarrow> string \<Rightarrow> storage" where
  "Lock st key = st\<lparr>held := key # held st, calls := calls st @ [CallLock key]\<rparr>"

definition Unlock :: "storage \<Rightarrow> string \<Rightarrow> storage" where
  "Unlock st key = st\<lparr>held := remove1 key (held st), calls := calls st @ [CallUnlock key]\<rparr>"

subsection \<open>\<open>encoding/json\<close> on \<open>Traffic\<close>\<close>

text \<open>
  \<open>json.Marshal\<close> and \<open>json.Unmarshal\<close> are parameters of the persistent backend.
  \<open>Unmarshal b t\<close> decodes \<open>b\<close> into the variable that holds \<open>t\<close>: it yields the
  variable's content after the call, which a failed or partial decoding may have
  changed or kept, and the error.
\<close>

record json =
  Marshal :: "Traffic \<Rightarrow> error + string"
  Unmarshal :: "string \<Rightarrow> Traffic \<Rightarrow> Traffic \<times> error option"

section \<open>\<open>CaddyUpstream\<close>\<close>

text \<open>
  \<open>Logger\<close> is the list of the errors written with \<open>Logger.Error\<close>, oldest first.
  \<open>Storage\<close> is the state of the collaborator the upstream talks to.
\<close>

record CaddyUpstream =
  Prefix :: string
  Storage :: storage
  Logger :: "error list"

definition Provision :: "storage \<Rightarrow> CaddyUpstream \<Rightarrow> CaddyUpstream \<times> error option" where
  "Provision ctx_storage u =
     (u\<lparr>Prefix := ''trojan/'', Storage := ctx_storage, Logger := []\<rparr>, None)"

definition CaddyUpstream_AddKey ::
  "json \<Rightarrow> CaddyUpstream \<Rightarrow> string \<Rightarrow> CaddyUpstream \<times> error option" where
  "CaddyUpstream_AddKey J u k =
     (let key = Prefix u @ EncodeToString k
      in if Exists (Storage u) key then (u, None)
         else case Marshal J \<lparr>Up = 0, Down = 0\<rparr> of
                Inl err \<Rightarrow> (u, Some err)
              | Inr b \<Rightarrow> (case Store (Storage u) key b of
                           (st, err) \<Rightarrow> (u\<lparr>Storage := st\<rparr>, err)))"

definition CaddyUpstream_Add ::
  "json \<Rightarrow> derivation \<Rightarrow> CaddyUpstream \<Rightarrow> string \<Rightarrow> CaddyUpstream \<times> error option" where
  "CaddyUpstream_Add J GenKey u s = CaddyUpstream_AddKey J u (GenKey s)"



text \<open>
  The loop of \<open>Range\<close>. The variable \<open>traffic\<close> is declared before the loop, so each
  \<open>Unmarshal\<close> decodes into what the previous iteration left. The result is the errors
  logged and the calls of \<open>fn\<close>, both in order.
\<close>

fun Range_loop ::
  "json \<Rightarrow> CaddyUpstream \<Rightarrow> Traffic \<Rightarrow> string list \<Rightarrow> error list \<times> visit list" where
  "Range_loop J u traffic [] = ([], [])"
| "Range_loop J u traffic (k # keys) =
     (case Load (Storage u) k of
        Inl err \<Rightarrow>
          (case Range_loop J u traffic keys of (logged, visits) \<Rightarrow> (err # logged, visits))
      | Inr b \<Rightarrow>
          (case Unmarshal J b traffic of
             (traffic', Some err) \<Rightarrow>
               (case Range_loop J u traffic' keys of
                  (logged, visits) \<Rightarrow> (err # logged, visits))
           | (traffic', None) \<Rightarrow>
               (case Range_loop J u traffic' keys of
                  (logged, visits) \<Rightarrow>
                    (logged, (TrimPrefix k (Prefix u), Up traffic', Down traffic') # visits))))"

definition CaddyUpstream_Range :: "json \<Rightarrow> CaddyUpstream \<Rightarrow> CaddyUpstream \<times> visit list" where
  "CaddyUpstream_Range J u =
     (case List (Storage u) (Prefix u) False of
        Inl err \<Rightarrow> (u, [])
      | Inr keys \<Rightarrow>
          (case Range_loop J u \<lparr>Up = 0, Down = 0\<rparr> keys of
             (logged, visits) \<Rightarrow> (u\<lparr>Logger := Logger u @ logged\<rparr>, visits)))"

definition CaddyUpstream_Validate :: "CaddyUpstream \<Rightarrow> string \<Rightarrow> bool" where
  "CaddyUpstream_Validate u k =
     (let k = (if length k = AuthLen then Prefix u @ k else Prefix u @ EncodeToString k)
      in Exists (Storage u) k)"

text \<open>
  \<open>Consume\<close> locks, runs its body, and the deferred \<open>Unlock\<close> runs on the storage the
  body leaves, whichever \<open>return\<close> the body took.
\<close>

definition CaddyUpstream_Consume ::
  "json \<Rightarrow> CaddyUpstream \<Rightarrow> string \<Rightarrow> int64 \<Rightarrow> int64 \<Rightarrow> CaddyUpstream \<times> error option" where
  "CaddyUpstream_Consume J u k nr nw =
     (let k = (if length k = AuthLen then Prefix u @ k else Prefix u @ EncodeToString k);
          st = Lock (Storage u) k;
          (st, err) =
            (case Load st k of
               Inl err \<Rightarrow> (st, Some err)
             | Inr b \<Rightarrow>
                 (case Unmarshal J b \<lparr>Up = 0, Down = 0\<rparr> of
                    (traffic, Some err) \<Rightarrow> (st, Some err)
                  | (traffic, None) \<Rightarrow>
                      (let traffic = traffic\<lparr>Up := Up traffic + nr\<rparr>;
                           traffic = traffic\<lparr>Down := Down traffic + nw\<rparr>
                       in case Marshal J traffic of
                            Inl err \<Rightarrow> (st, Some err)
                          | Inr b \<Rightarrow> Store st k b)))
      in (u\<lparr>Storage := Unlock st k\<rparr>, err))"

section \<open>Instances for concrete runs\<close>

text \<open>
  A derivation for concrete runs: on every secret it returns the hex encoding of the
  SHA-224 digest of \<open>Test1234\<close>, the secret of the example in the source comments, so it
  agrees with \<open>trojan.GenKey\<close> on that secret.
\<close>

definition GenKey_Test1234 :: derivation where
  "GenKey_Test1234 s = ''9e944c9fc213754b493939c9445a9578e9b90e2f8adef6b9015e8539''"

text \<open>
  A codec for concrete runs. \<open>Marshal_Traffic\<close> writes the object with the members
  \<open>up\<close> and \<open>down\<close> in decimal, as \<open>json.Marshal\<close> does for a struct of two tagged
  \<open>int64\<close> fields; \<open>Unmarshal_Traffic\<close> reads exactly that form and reports an error
  on any other input, leaving the variable as it was.
\<close>

function show_nat :: "nat \<Rightarrow> string" where
  "show_nat n =
     (if n < 10 then [''0123456789'' ! n]
      else show_nat (n div 10) @ [''0123456789'' ! (n mod 10)])"
  by pat_completeness auto
termination
  by (relation "measure id") auto

declare show_nat.simps [simp del]

definition show_int :: "int \<Rightarrow> string" where
  "show_int i = (if i < 0 then CHR ''-'' # show_nat (nat (- i)) else show_nat (nat i))"

definition quote :: char where
  "quote = CHR 0x22"

definition Marshal_Traffic :: "Traffic \<Rightarrow> error + string" where
  "Marshal_Traffic t =
     Inr (''{'' @ [quote] @ ''up'' @ [quote] @ '':'' @ show_int (sint (Up t)) @
          '','' @ [quote] @ ''down'' @ [quote] @ '':'' @ show_int (sint (Down t)) @ ''}'')"

fun read_nat :: "string \<Rightarrow> nat \<Rightarrow> nat option" where
  "read_nat [] acc = Some acc"
| "read_nat (c # cs) acc =
     (if 48 \<le> (of_char c :: nat) \<and> (of_char c :: nat) \<le> 57
      then read_nat cs (acc * 10 + (of_char c - 48))
      else None)"

definition read_int :: "string \<Rightarrow> int option" where
  "read_int s =
     (case s of
        [] \<Rightarrow> None
      | c # cs \<Rightarrow>
          if c = CHR ''-''
          then (if cs = [] then None else map_option (\<lambda>n. - int n) (read_nat cs 0))
          else map_option int (read_nat s 0))"

definition Unmarshal_Traffic :: "string \<Rightarrow> Traffic \<Rightarrow> Traffic \<times> error option" where
  "Unmarshal_Traffic b t =
     (let p1 = ''{'' @ [quote] @ ''up'' @ [quote] @ '':'';
          p2 = '','' @ [quote] @ ''down'' @ [quote] @ '':'';
          r1 = drop (length p1) b;
          r2 = dropWhile (\<lambda>c. c \<noteq> CHR '','') r1;
          r3 = drop (length p2) r2
      in if take (length p1) b = p1 \<and> take (length p2) r2 = p2 \<and>
            dropWhile (\<lambda>c. c \<noteq> CHR ''}'') r3 = ''}''
         then (case (read_int (takeWhile (\<lambda>c. c \<noteq> CHR '','') r1),
                     read_int (takeWhile (\<lambda>c. c \<noteq> CHR ''}'') r3)) of
                 (Some x, Some y) \<Rightarrow>
                   if - (2 ^ 63) \<le> x \<and> x < 2 ^ 63 \<and> - (2 ^ 63) \<le> y \<and> y < 2 ^ 63
                   then (\<lparr>Up = of_int x, Down = of_int y\<rparr>, None)
                   else (t, Some (ErrJSON b))
               | _ \<Rightarrow> (t, Some (ErrJSON b)))
         else (t, Some (ErrJSON b)))"

definition json_Traffic :: json where
  "json_Traffic = \<lparr>Marshal = Marshal_Traffic, Unmarshal = Unmarshal_Traffic\<rparr>"

text \<open>
  A second decoder for concrete runs, which also reads an object with the single member
  \<open>up\<close>: it sets \<open>Up\<close> and leaves \<open>Down\<close> as the variable held it, as
  \<open>json.Unmarshal\<close> leaves a struct field whose member is absent from the object.
  On every other input it is \<open>Unmarshal_Traffic\<close>.
\<close>

definition Unmarshal_Traffic_absent :: "string \<Rightarrow> Traffic \<Rightarrow> Traffic \<times> error option" where
  "Unmarshal_Traffic_absent b t =
     (case Unmarshal_Traffic b t of
        (t', None) \<Rightarrow> (t', None)
      | (t', Some err) \<Rightarrow>
          (let p = ''{'' @ [quote] @ ''up'' @ [quote] @ '':'';
               r = drop (length p) b
           in if take (length p) b = p \<and> dropWhile (\<lambda>c. c \<noteq> CHR ''}'') r = ''}''
              then (case read_int (takeWhile (\<lambda>c. c \<noteq> CHR ''}'') r) of
                      Some x \<Rightarrow>
                        if - (2 ^ 63) \<le> x \<and> x < 2 ^ 63 then (t\<lparr>Up := of_int x\<rparr>, None)
                        else (t, Some err)
                    | None \<Rightarrow> (t, Some err))
              else (t, Some err)))"

definition json_Traffic_absent :: json where
  "json_Traffic_absent = \<lparr>Marshal = Marshal_Traffic, Unmarshal = Unmarshal_Traffic_absent\<rparr>"

text \<open>
  A storage that holds nothing and fails no call, and the \<open>CaddyUpstream\<close> that
  \<open>Provision\<close> makes on it.
\<close>

definition empty_storage :: storage where
  "empty_storage = \<lparr>files = [], held = [], fails = (\<lambda>c. False), calls = []\<rparr>"

definition provisioned :: CaddyUpstream where
  "provisioned =
     fst (Provision empty_storage \<lparr>Prefix = [], Storage = empty_storage, Logger = []\<rparr>)"

section \<open>Notions used by the properties\<close>

text \<open>
  The key \<open>Validate\<close> and \<open>Consume\<close> look up for the argument \<open>k\<close>: \<open>k\<close> itself when
  it has \<open>AuthLen\<close> bytes, its base64 encoding otherwise (the prefix of the persistent
  backend comes in front).
\<close>

definition lookup_key :: "string \<Rightarrow> string" where
  "lookup_key k = (if length k = AuthLen then k else EncodeToString k)"

text \<open>\<open>entry u key\<close> is the two-valued read \<open>u.mm[key]\<close>: the record, if there is one.\<close>

definition entry :: "MemoryUpstream \<Rightarrow> string \<Rightarrow> Traffic option" where
  "entry u key = (case mm u of None \<Rightarrow> None | Some m \<Rightarrow> map_of m key)"


text \<open>The bytes the storage holds for a key.\<close>

definition stored :: "CaddyUpstream \<Rightarrow> string \<Rightarrow> string option" where
  "stored u key = map_of (files (Storage u)) key"

text \<open>
  The record \<open>Consume\<close> reads for a stored key: the bytes loaded and decoded into a
  fresh zero \<open>Traffic\<close>; \<open>None\<close> when \<open>Load\<close> or \<open>Unmarshal\<close> reports an error.
  \<open>visit_of\<close> is the call of \<open>fn\<close> that reports this record under the key without
  the prefix.
\<close>

definition decoded :: "json \<Rightarrow> CaddyUpstream \<Rightarrow> string \<Rightarrow> Traffic option" where
  "decoded J c key =
     (case Load (Storage c) key of
        Inl err \<Rightarrow> None
      | Inr b \<Rightarrow>
          (case Unmarshal J b \<lparr>Up = 0, Down = 0\<rparr> of
             (t, None) \<Rightarrow> Some t
           | (t, Some err) \<Rightarrow> None))"

definition visit_of :: "json \<Rightarrow> CaddyUpstream \<Rightarrow> string \<Rightarrow> visit option" where
  "visit_of J c key =
     map_option (\<lambda>t. (TrimPrefix key (Prefix c), Up t, Down t)) (decoded J c key)"

text \<open>
  A call of the \<open>Upstream\<close> interface, and a sequential run of calls on each backend. A
  run keeps the receiver; \<open>Range\<close> and \<open>Validate\<close> leave the in-memory receiver as it
  is. A panic ends the run.
\<close>

datatype op =
    Add string
  | AddKey string
  | Del string
  | DelKey string
  | Range
  | Validate string
  | Consume string int64 int64

fun MemoryUpstream_call ::
  "derivation \<Rightarrow> MemoryUpstream \<Rightarrow> op \<Rightarrow> panic + (MemoryUpstream \<times> error option)" where
  "MemoryUpstream_call GenKey u (Add s) = MemoryUpstream_Add GenKey u s"
| "MemoryUpstream_call GenKey u (AddKey k) = MemoryUpstream_AddKey u k"
| "MemoryUpstream_call GenKey u (Del s) = MemoryUpstream_Del GenKey u s"
| "MemoryUpstream_call GenKey u (DelKey k) = MemoryUpstream_DelKey u k"
| "MemoryUpstream_call GenKey u Range = Inr (u, None)"
| "MemoryUpstream_call GenKey u (Validate k) = Inr (u, None)"
| "MemoryUpstream_call GenKey u (Consume k nr nw) = MemoryUpstream_Consume u k nr nw"

fun MemoryUpstream_run ::
  "derivation \<Rightarrow> MemoryUpstream \<Rightarrow> op list \<Rightarrow> panic + MemoryUpstream" where
  "MemoryUpstream_run GenKey u [] = Inr u"
| "MemoryUpstream_run GenKey u (x # xs) =
     (case MemoryUpstream_call GenKey u x of
        Inl p \<Rightarrow> Inl p
      | Inr (u', err) \<Rightarrow> MemoryUpstream_run GenKey u' xs)"







section \<open>Facts about the collaborators\<close>

lemma length_EncodeToString: "length (EncodeToString s) = 4 * ((length s + 2) div 3)"
proof (induction s rule: EncodeToString.induct)
  case (4 a b c src)
  have "(length (a # b # c # src) + 2) div 3 = Suc ((length src + 2) div 3)" by simp
  with 4 show ?case by (simp add: Let_def)
qed (simp_all add: Let_def)

declare EncodeToString.simps [simp del]

lemmas EncodeToString_eval = EncodeToString.simps encode6_def encodeStd_def

section \<open>The in-memory backend on an allocated map\<close>



lemma Traffic_update_both: "t\<lparr>Up := a, Down := b\<rparr> = \<lparr>Up = a, Down = b\<rparr>"
  by (cases t) simp


lemma entry_update:
  "entry (u\<lparr>mm := Some (AList.update key t m)\<rparr>) key' =
     (if key' = key then Some t else map_of m key')"
  by (simp add: entry_def AList.update_conv')



section \<open>The in-memory backend on a nil map\<close>

text \<open>
  C2. The value the module constructor of \<open>MemoryUpstream\<close> returns has a nil map
  \<open>mm\<close>. On it \<open>AddKey\<close> and \<open>Consume\<close> (and \<open>Add\<close>, which calls \<open>AddKey\<close>) panic
  with an assignment to an entry in a nil map, while \<open>DelKey\<close>, \<open>Del\<close>, \<open>Validate\<close>
  and \<open>Range\<close> complete: the deletions return no error and leave the value as it is,
  \<open>Validate\<close> returns false and \<open>Range\<close> calls \<open>fn\<close> not once. No method allocates the
  map: every run of calls from that value either panics or ends in the same value.
\<close>

theorem C2_nil_map:
  "mm new_MemoryUpstream = None \<and>
   MemoryUpstream_AddKey new_MemoryUpstream k = Inl AssignmentToEntryInNilMap \<and>
   MemoryUpstream_Add GenKey new_MemoryUpstream s = Inl AssignmentToEntryInNilMap \<and>
   MemoryUpstream_Consume new_MemoryUpstream k nr nw = Inl AssignmentToEntryInNilMap \<and>
   MemoryUpstream_DelKey new_MemoryUpstream k = Inr (new_MemoryUpstream, None) \<and>
   MemoryUpstream_Del GenKey new_MemoryUpstream s = Inr (new_MemoryUpstream, None) \<and>
   MemoryUpstream_Validate new_MemoryUpstream k = False \<and>
   MemoryUpstream_Range new_MemoryUpstream = [] \<and>
   MemoryUpstream_run GenKey new_MemoryUpstream ops
     \<in> {Inl AssignmentToEntryInNilMap, Inr new_MemoryUpstream}"
proof -
  have run: "MemoryUpstream_run GenKey new_MemoryUpstream ops
     \<in> {Inl AssignmentToEntryInNilMap, Inr new_MemoryUpstream}"
  proof (induction ops)
    case Nil
    show ?case by simp
  next
    case (Cons x xs)
    show ?case
      using Cons.IH
      by (cases x)
         (simp_all add: new_MemoryUpstream_def MemoryUpstream_AddKey_def MemoryUpstream_Add_def
            MemoryUpstream_DelKey_def MemoryUpstream_Del_def MemoryUpstream_Consume_def Let_def)
  qed
  show ?thesis
    using run
    by (simp add: new_MemoryUpstream_def MemoryUpstream_AddKey_def MemoryUpstream_Add_def
          MemoryUpstream_DelKey_def MemoryUpstream_Del_def MemoryUpstream_Consume_def
          MemoryUpstream_Validate_def MemoryUpstream_Range_def Let_def)
qed

section \<open>Accounting in memory\<close>



section \<open>Creation in memory\<close>



section \<open>Keys and the storage operations\<close>


lemma length_EncodeToString_HeaderLen:
  "length k = HeaderLen \<Longrightarrow> length (EncodeToString k) = AuthLen"
  by (simp add: length_EncodeToString AuthLen_def HeaderLen_def)

lemma lookup_key_derived: "length k = HeaderLen \<Longrightarrow> lookup_key k = EncodeToString k"
  by (simp add: lookup_key_def AuthLen_def HeaderLen_def)

lemma lookup_key_canonical: "length k = HeaderLen \<Longrightarrow> lookup_key (EncodeToString k) = EncodeToString k"
  by (simp add: lookup_key_def length_EncodeToString_HeaderLen)

lemma MemoryUpstream_Validate_entry:
  "MemoryUpstream_Validate u k = (entry u (lookup_key k) \<noteq> None)"
  by (simp add: MemoryUpstream_Validate_def entry_def lookup_key_def split: option.splits)

lemma CaddyUpstream_Validate_stored:
  "CaddyUpstream_Validate u k = (stored u (Prefix u @ lookup_key k) \<noteq> None)"
  by (simp add: CaddyUpstream_Validate_def stored_def lookup_key_def Exists_def)

lemma Store_result:
  "Store st key b =
     (if fails st (CallStore key b)
      then (st\<lparr>calls := calls st @ [CallStore key b]\<rparr>, Some (ErrIO (CallStore key b)))
      else (st\<lparr>calls := calls st @ [CallStore key b], files := AList.update key b (files st)\<rparr>,
            None))"
  by (simp add: Store_def Let_def)

lemma CaddyUpstream_AddKey_stored:
  assumes "CaddyUpstream_AddKey J u k = (u', err)"
  shows "Prefix u' = Prefix u"
    and "key \<noteq> Prefix u @ EncodeToString k \<Longrightarrow> stored u' key = stored u key"
    and "err = None \<Longrightarrow> stored u' (Prefix u @ EncodeToString k) \<noteq> None"
  using assms
  by (auto simp: CaddyUpstream_AddKey_def Let_def stored_def Exists_def Store_result
        AList.update_conv' split: if_splits sum.splits)


lemma CaddyUpstream_Consume_frame:
  assumes "CaddyUpstream_Consume J u k nr nw = (u', err)"
  shows "Prefix u' = Prefix u"
    and "key \<noteq> Prefix u @ lookup_key k \<Longrightarrow> stored u' key = stored u key"
    and "stored u key \<noteq> None \<Longrightarrow> stored u' key \<noteq> None"
  using assms
  by (auto simp: CaddyUpstream_Consume_def Let_def stored_def lookup_key_def Lock_def Unlock_def
        Load_def Store_result AList.update_conv'
        split: if_splits sum.splits prod.splits option.splits)

section \<open>Which forms of a key \<open>Validate\<close> accepts after \<open>Add\<close>\<close>

text \<open>
  C1, as amended. For every secret \<open>s\<close> whose derived key has \<open>HeaderLen\<close> bytes,
  after \<open>Add(s)\<close> has returned without error on a backend (in memory or persistent),
  \<open>Validate\<close> returns true when called with the derived key of \<open>s\<close> and when called
  with the base64 encoding of that derived key: both forms are looked up under the same
  stored key. (Called with \<open>s\<close> itself, \<open>Validate\<close> looks up the base64 encoding of
  \<open>s\<close>, or \<open>s\<close> when it has \<open>AuthLen\<close> bytes; no method but \<open>Add\<close> and \<open>Del\<close>
  derives a key.)
\<close>

theorem C1_Add_then_Validate:
  assumes "length (GenKey s) = HeaderLen"
  shows "lookup_key (GenKey s) = EncodeToString (GenKey s) \<and>
         lookup_key (EncodeToString (GenKey s)) = EncodeToString (GenKey s) \<and>
         (\<forall>u' err. MemoryUpstream_Add GenKey u s = Inr (u', err) \<longrightarrow>
            MemoryUpstream_Validate u' (GenKey s) \<and>
            MemoryUpstream_Validate u' (EncodeToString (GenKey s))) \<and>
         (\<forall>c'. CaddyUpstream_Add J GenKey c s = (c', None) \<longrightarrow>
            CaddyUpstream_Validate c' (GenKey s) \<and>
            CaddyUpstream_Validate c' (EncodeToString (GenKey s)))"
proof -
  let ?key = "EncodeToString (GenKey s)"
  have k1: "lookup_key (GenKey s) = ?key"
    using assms by (rule lookup_key_derived)
  have k2: "lookup_key ?key = ?key"
    using assms by (rule lookup_key_canonical)
  have mem: "MemoryUpstream_Validate u' (GenKey s) \<and> MemoryUpstream_Validate u' ?key"
    if "MemoryUpstream_Add GenKey u s = Inr (u', err)" for u' err
  proof -
    from that have "entry u' ?key \<noteq> None"
      by (auto simp: MemoryUpstream_Add_def MemoryUpstream_AddKey_def entry_update
            split: option.splits)
    then show ?thesis by (simp add: MemoryUpstream_Validate_entry k1 k2)
  qed
  have per: "CaddyUpstream_Validate c' (GenKey s) \<and> CaddyUpstream_Validate c' ?key"
    if "CaddyUpstream_Add J GenKey c s = (c', None)" for c'
  proof -
    from that have add: "CaddyUpstream_AddKey J c (GenKey s) = (c', None)"
      by (simp add: CaddyUpstream_Add_def)
    have "stored c' (Prefix c' @ ?key) \<noteq> None"
      using CaddyUpstream_AddKey_stored(1,3) [OF add] by simp
    then show ?thesis by (simp add: CaddyUpstream_Validate_stored k1 k2)
  qed
  from k1 k2 mem per show ?thesis by blast
qed

theorem C1_Add_then_Validate_witness:
  "length (GenKey_Test1234 ''Test1234'') = HeaderLen \<and>
   snd (CaddyUpstream_Add json_Traffic GenKey_Test1234 provisioned ''Test1234'') = None \<and>
   CaddyUpstream_Validate
     (fst (CaddyUpstream_Add json_Traffic GenKey_Test1234 provisioned ''Test1234''))
     (GenKey_Test1234 ''Test1234'') \<and>
   (\<exists>u'. MemoryUpstream_Add GenKey_Test1234 \<lparr>mm = Some []\<rparr> ''Test1234'' = Inr (u', None) \<and>
      MemoryUpstream_Validate u' (GenKey_Test1234 ''Test1234''))"
proof -
  have h: "length (GenKey_Test1234 ''Test1234'') = HeaderLen"
    by (simp add: GenKey_Test1234_def HeaderLen_def)
  have ok: "snd (CaddyUpstream_Add json_Traffic GenKey_Test1234 provisioned ''Test1234'') = None"
    by (simp add: CaddyUpstream_Add_def CaddyUpstream_AddKey_def provisioned_def Provision_def
          empty_storage_def Exists_def Store_def json_Traffic_def Marshal_Traffic_def Let_def)
  then have add: "CaddyUpstream_Add json_Traffic GenKey_Test1234 provisioned ''Test1234'' =
      (fst (CaddyUpstream_Add json_Traffic GenKey_Test1234 provisioned ''Test1234''), None)"
    by (metis prod.collapse)
  have mem: "\<exists>u'. MemoryUpstream_Add GenKey_Test1234 \<lparr>mm = Some []\<rparr> ''Test1234'' = Inr (u', None)"
    by (simp add: MemoryUpstream_Add_def MemoryUpstream_AddKey_def)
  from C1_Add_then_Validate [where GenKey = GenKey_Test1234 and s = "''Test1234''"
      and u = "\<lparr>mm = Some []\<rparr>" and J = json_Traffic and c = provisioned] h ok add mem
  show ?thesis by blast
qed

text \<open>
  C1 as stated fails: with the secret \<open>Test1234\<close>, \<open>Add\<close> succeeds on an empty
  in-memory map and on an empty storage, and \<open>Validate\<close> called with the secret itself
  then returns false on both; the key looked up for the secret is not the key looked up
  for its derived key.
\<close>

theorem C1_raw_secret_counterexample:
  "MemoryUpstream_Add GenKey_Test1234 \<lparr>mm = Some []\<rparr> ''Test1234'' =
     Inr (\<lparr>mm = Some [(''OWU5NDRjOWZjMjEzNzU0YjQ5MzkzOWM5NDQ1YTk1NzhlOWI5MGUyZjhhZGVmNmI5MDE1ZTg1Mzk='',
                       \<lparr>Up = 0, Down = 0\<rparr>)]\<rparr>, None) \<and>
   MemoryUpstream_Validate
     \<lparr>mm = Some [(''OWU5NDRjOWZjMjEzNzU0YjQ5MzkzOWM5NDQ1YTk1NzhlOWI5MGUyZjhhZGVmNmI5MDE1ZTg1Mzk='',
                  \<lparr>Up = 0, Down = 0\<rparr>)]\<rparr> ''Test1234'' = False \<and>
   snd (CaddyUpstream_Add json_Traffic GenKey_Test1234 provisioned ''Test1234'') = None \<and>
   CaddyUpstream_Validate
     (fst (CaddyUpstream_Add json_Traffic GenKey_Test1234 provisioned ''Test1234''))
     ''Test1234'' = False \<and>
   lookup_key ''Test1234'' = ''VGVzdDEyMzQ='' \<and>
   lookup_key (GenKey_Test1234 ''Test1234'') =
     ''OWU5NDRjOWZjMjEzNzU0YjQ5MzkzOWM5NDQ1YTk1NzhlOWI5MGUyZjhhZGVmNmI5MDE1ZTg1Mzk=''"
proof -
  have enc: "EncodeToString (GenKey_Test1234 ''Test1234'') =
      ''OWU5NDRjOWZjMjEzNzU0YjQ5MzkzOWM5NDQ1YTk1NzhlOWI5MGUyZjhhZGVmNmI5MDE1ZTg1Mzk=''"
    by (simp add: GenKey_Test1234_def EncodeToString_eval)
  have raw: "EncodeToString ''Test1234'' = ''VGVzdDEyMzQ=''"
    by (simp add: EncodeToString_eval)
  have len: "length (GenKey_Test1234 ''Test1234'') = 56"
    by (simp add: GenKey_Test1234_def)
  have m1: "MemoryUpstream_Add GenKey_Test1234 \<lparr>mm = Some []\<rparr> ''Test1234'' =
     Inr (\<lparr>mm = Some [(''OWU5NDRjOWZjMjEzNzU0YjQ5MzkzOWM5NDQ1YTk1NzhlOWI5MGUyZjhhZGVmNmI5MDE1ZTg1Mzk='',
                       \<lparr>Up = 0, Down = 0\<rparr>)]\<rparr>, None)"
    by (simp add: MemoryUpstream_Add_def MemoryUpstream_AddKey_def enc)
  have m2: "MemoryUpstream_Validate
     \<lparr>mm = Some [(''OWU5NDRjOWZjMjEzNzU0YjQ5MzkzOWM5NDQ1YTk1NzhlOWI5MGUyZjhhZGVmNmI5MDE1ZTg1Mzk='',
                  \<lparr>Up = 0, Down = 0\<rparr>)]\<rparr> ''Test1234'' = False"
    by (simp add: MemoryUpstream_Validate_def AuthLen_def raw)
  have p1: "snd (CaddyUpstream_Add json_Traffic GenKey_Test1234 provisioned ''Test1234'') = None"
    by (simp add: CaddyUpstream_Add_def CaddyUpstream_AddKey_def provisioned_def Provision_def
          empty_storage_def Exists_def Store_def json_Traffic_def Marshal_Traffic_def Let_def)
  have p2: "CaddyUpstream_Validate
     (fst (CaddyUpstream_Add json_Traffic GenKey_Test1234 provisioned ''Test1234''))
     ''Test1234'' = False"
    by (simp add: CaddyUpstream_Add_def CaddyUpstream_AddKey_def provisioned_def Provision_def
          empty_storage_def Exists_def Store_def json_Traffic_def Marshal_Traffic_def Let_def
          CaddyUpstream_Validate_def AuthLen_def raw enc)
  have k1: "lookup_key ''Test1234'' = ''VGVzdDEyMzQ=''"
    by (simp add: lookup_key_def AuthLen_def raw)
  have k2: "lookup_key (GenKey_Test1234 ''Test1234'') =
     ''OWU5NDRjOWZjMjEzNzU0YjQ5MzkzOWM5NDQ1YTk1NzhlOWI5MGUyZjhhZGVmNmI5MDE1ZTg1Mzk=''"
    by (simp add: lookup_key_def AuthLen_def len enc)
  from m1 m2 p1 p2 k1 k2 show ?thesis by blast
qed

section \<open>Keys of exactly \<open>AuthLen\<close> bytes\<close>



section \<open>Deletion\<close>







section \<open>Runs of the concrete codec\<close>

lemma Marshal_Traffic_0_0 [simplified]:
  "Marshal_Traffic \<lparr>Up = 0, Down = 0\<rparr> =
     Inr (''{'' @ [quote] @ ''up'' @ [quote] @ '':0,'' @ [quote] @ ''down'' @ [quote] @ '':0}'')"
  by (simp add: Marshal_Traffic_def show_int_def show_nat.simps)

lemma Marshal_Traffic_10_20 [simplified]:
  "Marshal_Traffic \<lparr>Up = 10, Down = 20\<rparr> =
     Inr (''{'' @ [quote] @ ''up'' @ [quote] @ '':10,'' @ [quote] @ ''down'' @ [quote] @ '':20}'')"
  by (simp add: Marshal_Traffic_def show_int_def show_nat.simps)

lemma Unmarshal_Traffic_0_0 [simplified]:
  "Unmarshal_Traffic
     (''{'' @ [quote] @ ''up'' @ [quote] @ '':0,'' @ [quote] @ ''down'' @ [quote] @ '':0}'') t =
   (\<lparr>Up = 0, Down = 0\<rparr>, None)"
  by (simp add: Unmarshal_Traffic_def read_int_def quote_def)

lemma Unmarshal_Traffic_10_20 [simplified]:
  "Unmarshal_Traffic
     (''{'' @ [quote] @ ''up'' @ [quote] @ '':10,'' @ [quote] @ ''down'' @ [quote] @ '':20}'') t =
   (\<lparr>Up = 10, Down = 20\<rparr>, None)"
  by (simp add: Unmarshal_Traffic_def read_int_def quote_def)

lemma Unmarshal_Traffic_garbage:
  "Unmarshal_Traffic ''garbage'' t = (t, Some (ErrJSON ''garbage''))"
  by (simp add: Unmarshal_Traffic_def read_int_def quote_def)

section \<open>Creation on the persistent backend\<close>

lemma CaddyUpstream_AddKey_present:
  "stored c (Prefix c @ EncodeToString k) \<noteq> None \<Longrightarrow> CaddyUpstream_AddKey J c k = (c, None)"
  by (auto simp: CaddyUpstream_AddKey_def stored_def Exists_def)

lemma CaddyUpstream_AddKey_absent:
  "stored c (Prefix c @ EncodeToString k) = None \<Longrightarrow>
   CaddyUpstream_AddKey J c k =
     (case Marshal J \<lparr>Up = 0, Down = 0\<rparr> of
        Inl err \<Rightarrow> (c, Some err)
      | Inr b \<Rightarrow>
          (c\<lparr>Storage := fst (Store (Storage c) (Prefix c @ EncodeToString k) b)\<rparr>,
           snd (Store (Storage c) (Prefix c @ EncodeToString k) b)))"
  by (simp add: CaddyUpstream_AddKey_def stored_def Exists_def split: sum.splits prod.splits)

text \<open>
  C5. The persistent \<open>AddKey\<close> is idempotent and does not destroy: for every key, if
  the prefixed base64 key is in the storage, \<open>AddKey\<close> returns success and leaves the
  upstream, its storage and the log of storage calls exactly as they were. Only when
  the key is absent does it write: it marshals the zero record and calls \<open>Store\<close> once
  with it, which, unless the call fails, leaves that record under the key (a failed
  \<open>Marshal\<close> returns its error and writes nothing). So after a successful
  \<open>AddKey(k)\<close> and any \<open>Consume\<close>, a second \<open>AddKey(k)\<close> returns success and changes
  nothing: what the \<open>Consume\<close> accumulated stays.
\<close>

theorem C5_CaddyUpstream_AddKey:
  "(stored c (Prefix c @ EncodeToString k) \<noteq> None \<longrightarrow>
      CaddyUpstream_AddKey J c k = (c, None)) \<and>
   (stored c (Prefix c @ EncodeToString k) = None \<longrightarrow>
      (\<forall>err. Marshal J \<lparr>Up = 0, Down = 0\<rparr> = Inl err \<longrightarrow>
         CaddyUpstream_AddKey J c k = (c, Some err)) \<and>
      (\<forall>b. Marshal J \<lparr>Up = 0, Down = 0\<rparr> = Inr b \<longrightarrow>
         calls (Storage (fst (CaddyUpstream_AddKey J c k))) =
           calls (Storage c) @ [CallStore (Prefix c @ EncodeToString k) b] \<and>
         (fails (Storage c) (CallStore (Prefix c @ EncodeToString k) b) \<longrightarrow>
            snd (CaddyUpstream_AddKey J c k) \<noteq> None \<and>
            files (Storage (fst (CaddyUpstream_AddKey J c k))) = files (Storage c)) \<and>
         (\<not> fails (Storage c) (CallStore (Prefix c @ EncodeToString k) b) \<longrightarrow>
            snd (CaddyUpstream_AddKey J c k) = None \<and>
            stored (fst (CaddyUpstream_AddKey J c k)) (Prefix c @ EncodeToString k) = Some b))) \<and>
   (\<forall>c1 c2 k' nr nw err.
      CaddyUpstream_AddKey J c k = (c1, None) \<longrightarrow>
      CaddyUpstream_Consume J c1 k' nr nw = (c2, err) \<longrightarrow>
      CaddyUpstream_AddKey J c2 k = (c2, None))"
proof -
  let ?key = "Prefix c @ EncodeToString k"
  have absent_err: "CaddyUpstream_AddKey J c k = (c, Some err)"
    if "stored c ?key = None" "Marshal J \<lparr>Up = 0, Down = 0\<rparr> = Inl err" for err
    using that by (simp add: CaddyUpstream_AddKey_absent)
  have absent_ok:
    "calls (Storage (fst (CaddyUpstream_AddKey J c k))) = calls (Storage c) @ [CallStore ?key b] \<and>
     (fails (Storage c) (CallStore ?key b) \<longrightarrow>
        snd (CaddyUpstream_AddKey J c k) \<noteq> None \<and>
        files (Storage (fst (CaddyUpstream_AddKey J c k))) = files (Storage c)) \<and>
     (\<not> fails (Storage c) (CallStore ?key b) \<longrightarrow>
        snd (CaddyUpstream_AddKey J c k) = None \<and>
        stored (fst (CaddyUpstream_AddKey J c k)) ?key = Some b)"
    if "stored c ?key = None" "Marshal J \<lparr>Up = 0, Down = 0\<rparr> = Inr b" for b
    using that
    by (simp add: CaddyUpstream_AddKey_absent Store_result stored_def AList.update_conv')
  have twice: "CaddyUpstream_AddKey J c2 k = (c2, None)"
    if a: "CaddyUpstream_AddKey J c k = (c1, None)"
      and b: "CaddyUpstream_Consume J c1 k' nr nw = (c2, err)" for c1 c2 k' nr nw err
  proof -
    have "stored c1 (Prefix c1 @ EncodeToString k) \<noteq> None"
      using CaddyUpstream_AddKey_stored(1,3) [OF a] by simp
    then have "stored c2 (Prefix c2 @ EncodeToString k) \<noteq> None"
      using CaddyUpstream_Consume_frame(1,3) [OF b] by simp
    then show ?thesis by (rule CaddyUpstream_AddKey_present)
  qed
  from CaddyUpstream_AddKey_present [of c k J] absent_err absent_ok twice
  show ?thesis by blast
qed

theorem C5_CaddyUpstream_AddKey_witness:
  "stored provisioned (Prefix provisioned @ EncodeToString (GenKey_Test1234 [])) = None \<and>
   snd (CaddyUpstream_AddKey json_Traffic provisioned (GenKey_Test1234 [])) = None \<and>
   snd (CaddyUpstream_Consume json_Traffic
     (fst (CaddyUpstream_AddKey json_Traffic provisioned (GenKey_Test1234 [])))
     (GenKey_Test1234 []) 10 20) = None \<and>
   CaddyUpstream_AddKey json_Traffic
     (fst (CaddyUpstream_Consume json_Traffic
       (fst (CaddyUpstream_AddKey json_Traffic provisioned (GenKey_Test1234 [])))
       (GenKey_Test1234 []) 10 20))
     (GenKey_Test1234 []) =
   (fst (CaddyUpstream_Consume json_Traffic
       (fst (CaddyUpstream_AddKey json_Traffic provisioned (GenKey_Test1234 [])))
       (GenKey_Test1234 []) 10 20), None) \<and>
   snd (CaddyUpstream_Range json_Traffic
     (fst (CaddyUpstream_Consume json_Traffic
       (fst (CaddyUpstream_AddKey json_Traffic provisioned (GenKey_Test1234 [])))
       (GenKey_Test1234 []) 10 20))) =
   [(EncodeToString (GenKey_Test1234 []), 10, 20)]"
proof -
  let ?k = "GenKey_Test1234 []"
  let ?key = "''trojan/'' @ EncodeToString ?k"
  let ?b0 = "''{'' @ [quote] @ ''up'' @ [quote] @ '':0,'' @ [quote] @ ''down'' @ [quote] @ '':0}''"
  let ?b1 = "''{'' @ [quote] @ ''up'' @ [quote] @ '':10,'' @ [quote] @ ''down'' @ [quote] @ '':20}''"
  let ?c1 = "fst (CaddyUpstream_AddKey json_Traffic provisioned ?k)"
  let ?c2 = "fst (CaddyUpstream_Consume json_Traffic ?c1 ?k 10 20)"
  have len: "length ?k \<noteq> AuthLen"
    by (simp add: GenKey_Test1234_def AuthLen_def)
  have absent: "stored provisioned (Prefix provisioned @ EncodeToString ?k) = None"
    by (simp add: stored_def provisioned_def Provision_def empty_storage_def)
  have a1: "CaddyUpstream_AddKey json_Traffic provisioned ?k =
      (provisioned\<lparr>Storage := empty_storage\<lparr>calls := [CallStore ?key ?b0],
                                               files := [(?key, ?b0)]\<rparr>\<rparr>, None)"
    by (simp add: CaddyUpstream_AddKey_def provisioned_def Provision_def empty_storage_def
          Exists_def Store_def json_Traffic_def Marshal_Traffic_0_0 Let_def)
  have c2: "CaddyUpstream_Consume json_Traffic ?c1 ?k 10 20 =
      (provisioned\<lparr>Storage := empty_storage
         \<lparr>calls := [CallStore ?key ?b0, CallLock ?key, CallStore ?key ?b1, CallUnlock ?key],
          files := [(?key, ?b1)]\<rparr>\<rparr>, None)"
    unfolding a1 fst_conv
    using len
    by (simp add: CaddyUpstream_Consume_def provisioned_def Provision_def empty_storage_def
          Lock_def Unlock_def Load_def Store_def json_Traffic_def Unmarshal_Traffic_0_0 Marshal_Traffic_10_20 Let_def)
  have r: "snd (CaddyUpstream_Range json_Traffic ?c2) = [(EncodeToString ?k, 10, 20)]"
    unfolding c2 fst_conv
    by (simp add: CaddyUpstream_Range_def provisioned_def Provision_def empty_storage_def
          List_def Load_def HasPrefix_def TrimPrefix_def json_Traffic_def Unmarshal_Traffic_10_20)
  have s1: "snd (CaddyUpstream_AddKey json_Traffic provisioned ?k) = None"
    by (simp add: a1)
  have s2: "snd (CaddyUpstream_Consume json_Traffic ?c1 ?k 10 20) = None"
    by (simp add: c2)
  have e1: "CaddyUpstream_AddKey json_Traffic provisioned ?k = (?c1, None)"
    by (simp add: a1)
  have e2: "CaddyUpstream_Consume json_Traffic ?c1 ?k 10 20 = (?c2, None)"
    by (simp add: c2)
  from C5_CaddyUpstream_AddKey [of provisioned ?k json_Traffic] absent s1 s2 e1 e2 r
  show ?thesis by blast
qed

section \<open>Accounting on the persistent backend\<close>

lemma Load_Lock [simp]: "Load (Lock st key) key' = Load st key'"
  by (simp add: Load_def Lock_def)

lemma Unlock_Lock:
  "Unlock (Lock st key) key = st\<lparr>calls := calls st @ [CallLock key, CallUnlock key]\<rparr>"
  by (simp add: Lock_def Unlock_def)

lemma prefixed_lookup_key:
  "(if length k = AuthLen then pre @ k else pre @ EncodeToString k) = pre @ lookup_key k"
  by (simp add: lookup_key_def)

text \<open>The outcome of \<open>Consume\<close>, by the \<open>return\<close> its body takes.\<close>

lemma CaddyUpstream_Consume_Load_error:
  "Load (Storage c) (Prefix c @ lookup_key k) = Inl err \<Longrightarrow>
   CaddyUpstream_Consume J c k nr nw =
     (c\<lparr>Storage := Unlock (Lock (Storage c) (Prefix c @ lookup_key k))
                           (Prefix c @ lookup_key k)\<rparr>, Some err)"
  unfolding CaddyUpstream_Consume_def prefixed_lookup_key by (simp add: Let_def)

lemma CaddyUpstream_Consume_Unmarshal_error:
  "Load (Storage c) (Prefix c @ lookup_key k) = Inr b \<Longrightarrow>
   Unmarshal J b \<lparr>Up = 0, Down = 0\<rparr> = (t, Some err) \<Longrightarrow>
   CaddyUpstream_Consume J c k nr nw =
     (c\<lparr>Storage := Unlock (Lock (Storage c) (Prefix c @ lookup_key k))
                           (Prefix c @ lookup_key k)\<rparr>, Some err)"
  unfolding CaddyUpstream_Consume_def prefixed_lookup_key by (simp add: Let_def)

lemma CaddyUpstream_Consume_Marshal_error:
  "Load (Storage c) (Prefix c @ lookup_key k) = Inr b \<Longrightarrow>
   Unmarshal J b \<lparr>Up = 0, Down = 0\<rparr> = (t, None) \<Longrightarrow>
   Marshal J \<lparr>Up = Up t + nr, Down = Down t + nw\<rparr> = Inl err \<Longrightarrow>
   CaddyUpstream_Consume J c k nr nw =
     (c\<lparr>Storage := Unlock (Lock (Storage c) (Prefix c @ lookup_key k))
                           (Prefix c @ lookup_key k)\<rparr>, Some err)"
  unfolding CaddyUpstream_Consume_def prefixed_lookup_key
  by (simp add: Let_def Traffic_update_both)

lemma CaddyUpstream_Consume_Store:
  "Load (Storage c) (Prefix c @ lookup_key k) = Inr b \<Longrightarrow>
   Unmarshal J b \<lparr>Up = 0, Down = 0\<rparr> = (t, None) \<Longrightarrow>
   Marshal J \<lparr>Up = Up t + nr, Down = Down t + nw\<rparr> = Inr b' \<Longrightarrow>
   CaddyUpstream_Consume J c k nr nw =
     (c\<lparr>Storage := Unlock (fst (Store (Lock (Storage c) (Prefix c @ lookup_key k))
                                      (Prefix c @ lookup_key k) b'))
                           (Prefix c @ lookup_key k)\<rparr>,
      snd (Store (Lock (Storage c) (Prefix c @ lookup_key k)) (Prefix c @ lookup_key k) b'))"
  unfolding CaddyUpstream_Consume_def prefixed_lookup_key
  by (simp add: Let_def Traffic_update_both split: prod.splits)

lemma CaddyUpstream_Consume_lock:
  "\<exists>mid. calls (Storage (fst (CaddyUpstream_Consume J c k nr nw))) =
           calls (Storage c) @ [CallLock (Prefix c @ lookup_key k)] @ mid @
             [CallUnlock (Prefix c @ lookup_key k)] \<and>
         (mid = [] \<or> (\<exists>b. mid = [CallStore (Prefix c @ lookup_key k) b]))"
proof -
  let ?key = "Prefix c @ lookup_key k"
  show ?thesis
  proof (cases "Load (Storage c) ?key")
    case (Inl err)
    show ?thesis
      by (simp add: CaddyUpstream_Consume_Load_error [OF Inl] Unlock_Lock)
  next
    case (Inr b)
    obtain t e where un: "Unmarshal J b \<lparr>Up = 0, Down = 0\<rparr> = (t, e)"
      by (cases "Unmarshal J b \<lparr>Up = 0, Down = 0\<rparr>")
    show ?thesis
    proof (cases e)
      case (Some err)
      show ?thesis
        using un Some
        by (simp add: CaddyUpstream_Consume_Unmarshal_error [OF Inr] Unlock_Lock)
    next
      case None
      note un = un [unfolded None]
      show ?thesis
      proof (cases "Marshal J \<lparr>Up = Up t + nr, Down = Down t + nw\<rparr>")
        case (Inl err)
        show ?thesis
          by (simp add: CaddyUpstream_Consume_Marshal_error [OF Inr un Inl] Unlock_Lock)
      next
        case (Inr b')
        show ?thesis
          by (simp add: CaddyUpstream_Consume_Store [OF \<open>Load (Storage c) ?key = Inr b\<close> un Inr]
                Store_result Lock_def Unlock_def)
      qed
    qed
  qed
qed

lemma CaddyUpstream_Consume_held:
  "held (Storage (fst (CaddyUpstream_Consume J c k nr nw))) = held (Storage c)"
  by (simp add: CaddyUpstream_Consume_def Let_def Lock_def Unlock_def Load_def Store_result
        split: sum.splits prod.splits option.splits)

text \<open>
  C4. For every key, the persistent \<open>Consume\<close> returns the error, and leaves the
  storage with its records as it found it, with no \<open>Store\<close> call (the only calls
  are \<open>Lock\<close> and \<open>Unlock\<close>), whenever \<open>Load\<close> fails or the loaded bytes fail to
  deserialize. The entry must exist: on an absent key \<open>Consume\<close> returns an error and
  the key is still absent afterwards, no zero record is made. On every exit path, with
  or without error, the storage calls of \<open>Consume\<close> start with \<open>Lock\<close> of the key
  and end with \<open>Unlock\<close> of the same key, with at most one \<open>Store\<close> in between, and
  the set of held locks is afterwards what it was before.
\<close>

theorem C4_CaddyUpstream_Consume_errors:
  "(\<forall>err. Load (Storage c) (Prefix c @ lookup_key k) = Inl err \<longrightarrow>
      CaddyUpstream_Consume J c k nr nw =
        (c\<lparr>Storage := Unlock (Lock (Storage c) (Prefix c @ lookup_key k))
                              (Prefix c @ lookup_key k)\<rparr>, Some err)) \<and>
   (\<forall>b t err. Load (Storage c) (Prefix c @ lookup_key k) = Inr b \<longrightarrow>
      Unmarshal J b \<lparr>Up = 0, Down = 0\<rparr> = (t, Some err) \<longrightarrow>
      CaddyUpstream_Consume J c k nr nw =
        (c\<lparr>Storage := Unlock (Lock (Storage c) (Prefix c @ lookup_key k))
                              (Prefix c @ lookup_key k)\<rparr>, Some err)) \<and>
   files (Unlock (Lock (Storage c) (Prefix c @ lookup_key k)) (Prefix c @ lookup_key k)) =
     files (Storage c) \<and>
   calls (Unlock (Lock (Storage c) (Prefix c @ lookup_key k)) (Prefix c @ lookup_key k)) =
     calls (Storage c) @
       [CallLock (Prefix c @ lookup_key k), CallUnlock (Prefix c @ lookup_key k)] \<and>
   (stored c (Prefix c @ lookup_key k) = None \<longrightarrow>
      (\<exists>err. snd (CaddyUpstream_Consume J c k nr nw) = Some err) \<and>
      stored (fst (CaddyUpstream_Consume J c k nr nw)) (Prefix c @ lookup_key k) = None) \<and>
   (\<exists>mid. calls (Storage (fst (CaddyUpstream_Consume J c k nr nw))) =
           calls (Storage c) @ [CallLock (Prefix c @ lookup_key k)] @ mid @
             [CallUnlock (Prefix c @ lookup_key k)] \<and>
         (mid = [] \<or> (\<exists>b. mid = [CallStore (Prefix c @ lookup_key k) b]))) \<and>
   held (Lock (Storage c) (Prefix c @ lookup_key k)) =
     (Prefix c @ lookup_key k) # held (Storage c) \<and>
   held (Storage (fst (CaddyUpstream_Consume J c k nr nw))) = held (Storage c)"
proof -
  let ?key = "Prefix c @ lookup_key k"
  have absent: "(\<exists>err. snd (CaddyUpstream_Consume J c k nr nw) = Some err) \<and>
      stored (fst (CaddyUpstream_Consume J c k nr nw)) ?key = None"
    if none: "stored c ?key = None"
  proof -
    from none have "\<exists>err. Load (Storage c) ?key = Inl err"
      by (simp add: Load_def stored_def)
    then obtain err where "Load (Storage c) ?key = Inl err" ..
    from CaddyUpstream_Consume_Load_error [OF this] none show ?thesis
      by (simp add: Unlock_Lock stored_def)
  qed
  have unchanged: "files (Unlock (Lock (Storage c) ?key) ?key) = files (Storage c) \<and>
      calls (Unlock (Lock (Storage c) ?key) ?key) =
        calls (Storage c) @ [CallLock ?key, CallUnlock ?key] \<and>
      held (Lock (Storage c) ?key) = ?key # held (Storage c)"
    by (simp add: Lock_def Unlock_def)
  from CaddyUpstream_Consume_Load_error [of c k _ J nr nw]
    CaddyUpstream_Consume_Unmarshal_error [of c k _ J _ _ nr nw]
    unchanged absent CaddyUpstream_Consume_lock [of J c k nr nw]
    CaddyUpstream_Consume_held [of J c k nr nw]
  show ?thesis by blast
qed

theorem C4_CaddyUpstream_Consume_errors_witness:
  "Load (Storage provisioned) (Prefix provisioned @ lookup_key ''Test1234'') =
     Inl (ErrNotExist (''trojan/'' @ EncodeToString ''Test1234'')) \<and>
   CaddyUpstream_Consume json_Traffic provisioned ''Test1234'' 10 20 =
     (provisioned\<lparr>Storage := empty_storage
        \<lparr>calls := [CallLock (''trojan/'' @ EncodeToString ''Test1234''),
                   CallUnlock (''trojan/'' @ EncodeToString ''Test1234'')]\<rparr>\<rparr>,
      Some (ErrNotExist (''trojan/'' @ EncodeToString ''Test1234''))) \<and>
   Load (Storage (provisioned\<lparr>Storage := empty_storage
          \<lparr>files := [(''trojan/'' @ EncodeToString ''Test1234'', ''garbage'')]\<rparr>\<rparr>))
     (Prefix provisioned @ lookup_key ''Test1234'') = Inr ''garbage'' \<and>
   Unmarshal json_Traffic ''garbage'' \<lparr>Up = 0, Down = 0\<rparr> =
     (\<lparr>Up = 0, Down = 0\<rparr>, Some (ErrJSON ''garbage'')) \<and>
   CaddyUpstream_Consume json_Traffic
     (provisioned\<lparr>Storage := empty_storage
        \<lparr>files := [(''trojan/'' @ EncodeToString ''Test1234'', ''garbage'')]\<rparr>\<rparr>)
     ''Test1234'' 10 20 =
     (provisioned\<lparr>Storage := empty_storage
        \<lparr>files := [(''trojan/'' @ EncodeToString ''Test1234'', ''garbage'')],
         calls := [CallLock (''trojan/'' @ EncodeToString ''Test1234''),
                   CallUnlock (''trojan/'' @ EncodeToString ''Test1234'')]\<rparr>\<rparr>,
      Some (ErrJSON ''garbage''))"
proof -
  let ?key = "''trojan/'' @ EncodeToString ''Test1234''"
  let ?g = "provisioned\<lparr>Storage := empty_storage\<lparr>files := [(?key, ''garbage'')]\<rparr>\<rparr>"
  have lk: "lookup_key ''Test1234'' = EncodeToString ''Test1234''"
    by (simp add: lookup_key_def AuthLen_def)
  have pre: "Prefix provisioned = ''trojan/''" "Prefix ?g = ''trojan/''"
    by (simp_all add: provisioned_def Provision_def)
  have l1: "Load (Storage provisioned) (Prefix provisioned @ lookup_key ''Test1234'') =
      Inl (ErrNotExist ?key)"
    by (simp add: lk Load_def provisioned_def Provision_def empty_storage_def)
  have l2: "Load (Storage ?g) (Prefix ?g @ lookup_key ''Test1234'') = Inr ''garbage''"
    by (simp add: lk Load_def provisioned_def Provision_def empty_storage_def)
  have un: "Unmarshal json_Traffic ''garbage'' \<lparr>Up = 0, Down = 0\<rparr> =
      (\<lparr>Up = 0, Down = 0\<rparr>, Some (ErrJSON ''garbage''))"
    by (simp add: json_Traffic_def Unmarshal_Traffic_garbage)
  have s1: "provisioned\<lparr>Storage := Unlock (Lock (Storage provisioned)
        (Prefix provisioned @ lookup_key ''Test1234''))
        (Prefix provisioned @ lookup_key ''Test1234'')\<rparr> =
      provisioned\<lparr>Storage := empty_storage\<lparr>calls := [CallLock ?key, CallUnlock ?key]\<rparr>\<rparr>"
    by (simp add: lk Unlock_Lock provisioned_def Provision_def empty_storage_def)
  have s2: "?g\<lparr>Storage := Unlock (Lock (Storage ?g) (Prefix ?g @ lookup_key ''Test1234''))
        (Prefix ?g @ lookup_key ''Test1234'')\<rparr> =
      provisioned\<lparr>Storage := empty_storage
        \<lparr>files := [(?key, ''garbage'')], calls := [CallLock ?key, CallUnlock ?key]\<rparr>\<rparr>"
    by (simp add: lk Unlock_Lock provisioned_def Provision_def empty_storage_def)
  from C4_CaddyUpstream_Consume_errors [of provisioned "''Test1234''" json_Traffic 10 20] l1
  have r1: "CaddyUpstream_Consume json_Traffic provisioned ''Test1234'' 10 20 =
      (provisioned\<lparr>Storage := empty_storage\<lparr>calls := [CallLock ?key, CallUnlock ?key]\<rparr>\<rparr>,
       Some (ErrNotExist ?key))"
    unfolding s1 [symmetric] by blast
  from C4_CaddyUpstream_Consume_errors [of ?g "''Test1234''" json_Traffic 10 20] l2 un
  have r2: "CaddyUpstream_Consume json_Traffic ?g ''Test1234'' 10 20 =
      (provisioned\<lparr>Storage := empty_storage
        \<lparr>files := [(?key, ''garbage'')], calls := [CallLock ?key, CallUnlock ?key]\<rparr>\<rparr>,
       Some (ErrJSON ''garbage''))"
    unfolding s2 [symmetric] by blast
  from l1 r1 l2 un r2 show ?thesis
    unfolding pre by blast
qed

section \<open>The counters along a run\<close>













section \<open>Enumeration on the persistent backend\<close>

lemma Range_loop_visits:
  assumes "\<forall>key\<in>set keys. \<forall>b. Load (Storage c) key = Inr b \<longrightarrow>
      (\<forall>t. snd (Unmarshal J b t) \<noteq> None) \<or> (\<exists>r. \<forall>t. Unmarshal J b t = (r, None))"
  shows "snd (Range_loop J c traffic keys) = List.map_filter (visit_of J c) keys \<and>
         length (fst (Range_loop J c traffic keys)) =
           length (filter (\<lambda>key. decoded J c key = None) keys)"
  using assms
proof (induction keys arbitrary: traffic)
  case Nil
  show ?case by simp
next
  case (Cons k keys)
  from Cons.prems have rest: "\<forall>key\<in>set keys. \<forall>b. Load (Storage c) key = Inr b \<longrightarrow>
      (\<forall>t. snd (Unmarshal J b t) \<noteq> None) \<or> (\<exists>r. \<forall>t. Unmarshal J b t = (r, None))"
    by simp
  note IH = Cons.IH [OF rest]
  show ?case
  proof (cases "Load (Storage c) k")
    case (Inl err)
    then have "visit_of J c k = None" "decoded J c k = None"
      by (simp_all add: visit_of_def decoded_def)
    with Inl IH [of traffic] show ?thesis
      by (cases "Range_loop J c traffic keys") simp
  next
    case (Inr b)
    with Cons.prems have
      "(\<forall>t. snd (Unmarshal J b t) \<noteq> None) \<or> (\<exists>r. \<forall>t. Unmarshal J b t = (r, None))"
      by simp
    then show ?thesis
    proof
      assume bad: "\<forall>t. snd (Unmarshal J b t) \<noteq> None"
      obtain t' e where un: "Unmarshal J b traffic = (t', Some e)"
        using bad [rule_format, of traffic] by (cases "Unmarshal J b traffic") auto
      have "decoded J c k = None"
        using Inr bad [rule_format, of "\<lparr>Up = 0, Down = 0\<rparr>"]
        by (auto simp: decoded_def split: prod.splits option.splits)
      then have "visit_of J c k = None" "decoded J c k = None"
        by (simp_all add: visit_of_def)
      with Inr un IH [of t'] show ?thesis
        by (cases "Range_loop J c t' keys") simp
    next
      assume "\<exists>r. \<forall>t. Unmarshal J b t = (r, None)"
      then obtain r where good: "\<And>t. Unmarshal J b t = (r, None)" by blast
      have d: "decoded J c k = Some r"
        using Inr good by (simp add: decoded_def)
      then have v: "visit_of J c k = Some (TrimPrefix k (Prefix c), Up r, Down r)"
        by (simp add: visit_of_def)
      from Inr good [of traffic] IH [of r] d v show ?thesis
        by (cases "Range_loop J c r keys") simp
    qed
  qed
qed

lemma HasPrefix_drop_inj:
  "HasPrefix a pre \<Longrightarrow> HasPrefix b pre \<Longrightarrow>
   drop (length pre) a = drop (length pre) b \<Longrightarrow> a = b"
  by (metis HasPrefix_def append_take_drop_id)

lemma distinct_map_filter_visits:
  assumes "distinct keys" and "\<forall>key\<in>set keys. HasPrefix key (Prefix c)"
  shows "distinct (map fst (List.map_filter (visit_of J c) keys))"
  using assms
proof (induction keys)
  case Nil
  show ?case by simp
next
  case (Cons k keys)
  then have IH: "distinct (map fst (List.map_filter (visit_of J c) keys))" by simp
  show ?case
  proof (cases "visit_of J c k")
    case None
    with IH show ?thesis by simp
  next
    case (Some v)
    have "fst v \<notin> fst ` set (List.map_filter (visit_of J c) keys)"
    proof
      assume "fst v \<in> fst ` set (List.map_filter (visit_of J c) keys)"
      then obtain k' where k': "k' \<in> set keys" and eq: "map_option fst (visit_of J c k') = Some (fst v)"
        by (auto simp: List.map_filter_def)
      from Some have fv: "fst v = TrimPrefix k (Prefix c)"
        by (auto simp: visit_of_def)
      from eq have fv': "fst v = TrimPrefix k' (Prefix c)"
        by (auto simp: visit_of_def)
      from Cons.prems k' have "HasPrefix k (Prefix c)" "HasPrefix k' (Prefix c)" by simp_all
      with fv fv' have "k = k'"
        by (auto simp: TrimPrefix_def intro: HasPrefix_drop_inj)
      with Cons.prems(1) k' show False by simp
    qed
    with IH Some show ?thesis by simp
  qed
qed

lemma Marshal_Traffic_1_2 [simplified]:
  "Marshal_Traffic \<lparr>Up = 1, Down = 2\<rparr> =
     Inr (''{'' @ [quote] @ ''up'' @ [quote] @ '':1,'' @ [quote] @ ''down'' @ [quote] @ '':2}'')"
  by (simp add: Marshal_Traffic_def show_int_def show_nat.simps)

lemma Marshal_Traffic_3_4 [simplified]:
  "Marshal_Traffic \<lparr>Up = 3, Down = 4\<rparr> =
     Inr (''{'' @ [quote] @ ''up'' @ [quote] @ '':3,'' @ [quote] @ ''down'' @ [quote] @ '':4}'')"
  by (simp add: Marshal_Traffic_def show_int_def show_nat.simps)

lemma Unmarshal_Traffic_1_2 [simplified]:
  "Unmarshal_Traffic
     (''{'' @ [quote] @ ''up'' @ [quote] @ '':1,'' @ [quote] @ ''down'' @ [quote] @ '':2}'') t =
   (\<lparr>Up = 1, Down = 2\<rparr>, None)"
  by (simp add: Unmarshal_Traffic_def read_int_def quote_def)

lemma Unmarshal_Traffic_3_4 [simplified]:
  "Unmarshal_Traffic
     (''{'' @ [quote] @ ''up'' @ [quote] @ '':3,'' @ [quote] @ ''down'' @ [quote] @ '':4}'') t =
   (\<lparr>Up = 3, Down = 4\<rparr>, None)"
  by (simp add: Unmarshal_Traffic_def read_int_def quote_def)

text \<open>
  Where \<open>Range\<close> reports the stored values. Take a storage in which the bytes of every
  key under the prefix either fail to decode or decode to one record whatever the
  variable held before, as the records that \<open>Marshal\<close> writes do. When \<open>List\<close>
  succeeds, \<open>Range\<close> then calls the visitor exactly once for each key under the prefix
  whose \<open>Load\<close> and deserialization succeed, with the record its bytes decode to and
  the key without the prefix, in the order of the listing; a key whose load or
  deserialization fails is logged (one entry each) and skipped, and the scan goes on.
  \<open>Range\<close> leaves the storage as it is. (When \<open>List\<close> fails, \<open>Range\<close> visits
  nothing.) So a ledger with the entries A: (1, 2) and B: (3, 4) has both visited with
  those values, also next to a corrupt entry and to a key outside the prefix.
\<close>

lemma CaddyUpstream_Range_settled:
  assumes "\<forall>(key, b)\<in>set (files (Storage c)). HasPrefix key (Prefix c) \<longrightarrow>
      (\<forall>t. snd (Unmarshal J b t) \<noteq> None) \<or> (\<exists>r. \<forall>t. Unmarshal J b t = (r, None))"
  shows
    "(fails (Storage c) (CallList (Prefix c) False) \<longrightarrow> CaddyUpstream_Range J c = (c, [])) \<and>
     (\<not> fails (Storage c) (CallList (Prefix c) False) \<longrightarrow>
        snd (CaddyUpstream_Range J c) =
          List.map_filter (visit_of J c)
            (filter (\<lambda>key. HasPrefix key (Prefix c)) (map fst (files (Storage c)))) \<and>
        Storage (fst (CaddyUpstream_Range J c)) = Storage c \<and>
        Prefix (fst (CaddyUpstream_Range J c)) = Prefix c \<and>
        length (Logger (fst (CaddyUpstream_Range J c))) =
          length (Logger c) +
          length (filter (\<lambda>key. decoded J c key = None)
            (filter (\<lambda>key. HasPrefix key (Prefix c)) (map fst (files (Storage c))))) \<and>
        (distinct (map fst (files (Storage c))) \<longrightarrow>
           distinct (map fst (snd (CaddyUpstream_Range J c)))) \<and>
        (\<forall>key t. key \<in> fst ` set (files (Storage c)) \<longrightarrow> HasPrefix key (Prefix c) \<longrightarrow>
           decoded J c key = Some t \<longrightarrow>
           (drop (length (Prefix c)) key, Up t, Down t) \<in> set (snd (CaddyUpstream_Range J c))))"
proof -
  let ?keys = "filter (\<lambda>key. HasPrefix key (Prefix c)) (map fst (files (Storage c)))"
  have failed: "CaddyUpstream_Range J c = (c, [])"
    if "fails (Storage c) (CallList (Prefix c) False)"
    using that by (simp add: CaddyUpstream_Range_def List_def)
  have settled: "\<forall>key\<in>set ?keys. \<forall>b. Load (Storage c) key = Inr b \<longrightarrow>
      (\<forall>t. snd (Unmarshal J b t) \<noteq> None) \<or> (\<exists>r. \<forall>t. Unmarshal J b t = (r, None))"
  proof (intro ballI allI impI)
    fix key b
    assume "key \<in> set ?keys"
    then have pre: "HasPrefix key (Prefix c)" by simp
    assume "Load (Storage c) key = Inr b"
    then have "map_of (files (Storage c)) key = Some b"
      by (auto simp: Load_def split: if_splits option.splits)
    then have "(key, b) \<in> set (files (Storage c))"
      by (rule map_of_SomeD)
    with assms pre show "(\<forall>t. snd (Unmarshal J b t) \<noteq> None) \<or> (\<exists>r. \<forall>t. Unmarshal J b t = (r, None))"
      by blast
  qed
  note loop = Range_loop_visits [OF settled, of "\<lparr>Up = 0, Down = 0\<rparr>"]
  have listed: "snd (CaddyUpstream_Range J c) = List.map_filter (visit_of J c) ?keys \<and>
      Storage (fst (CaddyUpstream_Range J c)) = Storage c \<and>
      Prefix (fst (CaddyUpstream_Range J c)) = Prefix c \<and>
      length (Logger (fst (CaddyUpstream_Range J c))) =
        length (Logger c) + length (filter (\<lambda>key. decoded J c key = None) ?keys)"
    if "\<not> fails (Storage c) (CallList (Prefix c) False)"
    using that loop
    by (cases "Range_loop J c \<lparr>Up = 0, Down = 0\<rparr> ?keys")
       (simp add: CaddyUpstream_Range_def List_def)
  have once: "distinct (map fst (List.map_filter (visit_of J c) ?keys))"
    if "distinct (map fst (files (Storage c)))"
    using that by (intro distinct_map_filter_visits) simp_all
  have each: "(drop (length (Prefix c)) key, Up t, Down t)
      \<in> set (List.map_filter (visit_of J c) ?keys)"
    if "key \<in> fst ` set (files (Storage c))" "HasPrefix key (Prefix c)"
      "decoded J c key = Some t" for key t
  proof -
    from that have "key \<in> set ?keys" by simp
    moreover from that have "visit_of J c key = Some (drop (length (Prefix c)) key, Up t, Down t)"
      by (simp add: visit_of_def TrimPrefix_def)
    ultimately show ?thesis
      by (force simp: List.map_filter_def)
  qed
  from failed listed once each show ?thesis by simp
qed

lemma CaddyUpstream_Range_settled_ledger:
  "Marshal_Traffic \<lparr>Up = 1, Down = 2\<rparr> =
     Inr (''{'' @ [quote] @ ''up'' @ [quote] @ '':1,'' @ [quote] @ ''down'' @ [quote] @ '':2}'') \<and>
   Marshal_Traffic \<lparr>Up = 3, Down = 4\<rparr> =
     Inr (''{'' @ [quote] @ ''up'' @ [quote] @ '':3,'' @ [quote] @ ''down'' @ [quote] @ '':4}'') \<and>
   snd (CaddyUpstream_Range json_Traffic
     (provisioned\<lparr>Storage := empty_storage\<lparr>files :=
        [(''trojan/A'',
          ''{'' @ [quote] @ ''up'' @ [quote] @ '':1,'' @ [quote] @ ''down'' @ [quote] @ '':2}''),
         (''trojan/X'', ''garbage''),
         (''other/C'',
          ''{'' @ [quote] @ ''up'' @ [quote] @ '':1,'' @ [quote] @ ''down'' @ [quote] @ '':2}''),
         (''trojan/B'',
          ''{'' @ [quote] @ ''up'' @ [quote] @ '':3,'' @ [quote] @ ''down'' @ [quote] @ '':4}'')]\<rparr>\<rparr>))
     = [(''A'', 1, 2), (''B'', 3, 4)] \<and>
   length (Logger (fst (CaddyUpstream_Range json_Traffic
     (provisioned\<lparr>Storage := empty_storage\<lparr>files :=
        [(''trojan/A'',
          ''{'' @ [quote] @ ''up'' @ [quote] @ '':1,'' @ [quote] @ ''down'' @ [quote] @ '':2}''),
         (''trojan/X'', ''garbage''),
         (''other/C'',
          ''{'' @ [quote] @ ''up'' @ [quote] @ '':1,'' @ [quote] @ ''down'' @ [quote] @ '':2}''),
         (''trojan/B'',
          ''{'' @ [quote] @ ''up'' @ [quote] @ '':3,'' @ [quote] @ ''down'' @ [quote] @ '':4}'')]\<rparr>\<rparr>))))
     = 1"
proof -
  let ?b12 = "''{'' @ [quote] @ ''up'' @ [quote] @ '':1,'' @ [quote] @ ''down'' @ [quote] @ '':2}''"
  let ?b34 = "''{'' @ [quote] @ ''up'' @ [quote] @ '':3,'' @ [quote] @ ''down'' @ [quote] @ '':4}''"
  let ?c = "provisioned\<lparr>Storage := empty_storage\<lparr>files :=
        [(''trojan/A'', ?b12), (''trojan/X'', ''garbage''), (''other/C'', ?b12),
         (''trojan/B'', ?b34)]\<rparr>\<rparr>"
  have m: "Marshal_Traffic \<lparr>Up = 1, Down = 2\<rparr> = Inr ?b12"
    "Marshal_Traffic \<lparr>Up = 3, Down = 4\<rparr> = Inr ?b34"
    by (simp_all add: Marshal_Traffic_1_2 Marshal_Traffic_3_4)
  have h: "\<forall>(key, b)\<in>set (files (Storage ?c)). HasPrefix key (Prefix ?c) \<longrightarrow>
      (\<forall>t. snd (Unmarshal json_Traffic b t) \<noteq> None) \<or>
      (\<exists>r. \<forall>t. Unmarshal json_Traffic b t = (r, None))"
    by (simp add: empty_storage_def json_Traffic_def Unmarshal_Traffic_1_2 Unmarshal_Traffic_3_4
          Unmarshal_Traffic_garbage)
  have l: "\<not> fails (Storage ?c) (CallList (Prefix ?c) False)"
    by (simp add: empty_storage_def)
  have d: "decoded json_Traffic ?c ''trojan/A'' = Some \<lparr>Up = 1, Down = 2\<rparr>"
    "decoded json_Traffic ?c ''trojan/X'' = None"
    "decoded json_Traffic ?c ''trojan/B'' = Some \<lparr>Up = 3, Down = 4\<rparr>"
    by (simp_all add: decoded_def Load_def empty_storage_def json_Traffic_def
          Unmarshal_Traffic_1_2 Unmarshal_Traffic_3_4 Unmarshal_Traffic_garbage)
  have keys: "filter (\<lambda>key. HasPrefix key (Prefix ?c)) (map fst (files (Storage ?c))) =
      [''trojan/A'', ''trojan/X'', ''trojan/B'']"
    by (simp add: provisioned_def Provision_def empty_storage_def HasPrefix_def)
  have logged: "length (Logger ?c) = 0"
    by (simp add: provisioned_def Provision_def)
  have pre: "Prefix ?c = ''trojan/''"
    by (simp add: provisioned_def Provision_def)
  from CaddyUpstream_Range_settled [of ?c json_Traffic, OF h] l
  have "snd (CaddyUpstream_Range json_Traffic ?c) =
          List.map_filter (visit_of json_Traffic ?c)
            (filter (\<lambda>key. HasPrefix key (Prefix ?c)) (map fst (files (Storage ?c))))"
    and "length (Logger (fst (CaddyUpstream_Range json_Traffic ?c))) =
          length (Logger ?c) +
          length (filter (\<lambda>key. decoded json_Traffic ?c key = None)
            (filter (\<lambda>key. HasPrefix key (Prefix ?c)) (map fst (files (Storage ?c)))))"
    by blast+
  then have "snd (CaddyUpstream_Range json_Traffic ?c) = [(''A'', 1, 2), (''B'', 3, 4)]"
    and "length (Logger (fst (CaddyUpstream_Range json_Traffic ?c))) = 1"
    by (simp_all add: keys [simplified] logged [simplified] d [simplified] pre [simplified]
          visit_of_def TrimPrefix_def HasPrefix_def)
  with m show ?thesis by simp
qed

lemma Marshal_Traffic_3_0 [simplified]:
  "Marshal_Traffic \<lparr>Up = 3, Down = 0\<rparr> =
     Inr (''{'' @ [quote] @ ''up'' @ [quote] @ '':3,'' @ [quote] @ ''down'' @ [quote] @ '':0}'')"
  by (simp add: Marshal_Traffic_def show_int_def show_nat.simps)

lemma Unmarshal_Traffic_absent_1_2 [simplified]:
  "Unmarshal_Traffic_absent
     (''{'' @ [quote] @ ''up'' @ [quote] @ '':1,'' @ [quote] @ ''down'' @ [quote] @ '':2}'') t =
   (\<lparr>Up = 1, Down = 2\<rparr>, None)"
  by (simp add: Unmarshal_Traffic_absent_def Unmarshal_Traffic_def read_int_def quote_def)

lemma Unmarshal_Traffic_absent_3_0 [simplified]:
  "Unmarshal_Traffic_absent
     (''{'' @ [quote] @ ''up'' @ [quote] @ '':3,'' @ [quote] @ ''down'' @ [quote] @ '':0}'') t =
   (\<lparr>Up = 3, Down = 0\<rparr>, None)"
  by (simp add: Unmarshal_Traffic_absent_def Unmarshal_Traffic_def read_int_def quote_def)

lemma Unmarshal_Traffic_absent_up_3 [simplified]:
  "Unmarshal_Traffic_absent (''{'' @ [quote] @ ''up'' @ [quote] @ '':3}'') t =
   (t\<lparr>Up := 3\<rparr>, None)"
  by (simp add: Unmarshal_Traffic_absent_def Unmarshal_Traffic_def read_int_def quote_def)

text \<open>
  C8. The persistent \<open>Range\<close> is to call the visitor for each key whose \<open>Load\<close> and
  deserialization succeed with the stored up and down values. It does not where a
  stored object lacks a member: \<open>Range\<close> declares \<open>traffic\<close> once before the loop, so
  \<open>Unmarshal\<close> leaves the field of the absent member as the previous iteration set
  it. On a storage with a first entry holding up 1 and down 2 and a second entry
  whose object has the member up = 3 only, the second entry loads and decodes without
  error, its bytes decode into a fresh record to up 3 and down 0, and \<open>Range\<close> calls
  the visitor for it with up 3 and down 2. \<open>Consume\<close>, which declares a fresh
  \<open>Traffic\<close> after its \<open>Load\<close>, reads the same entry as up 3 and down 0: after
  \<open>Consume\<close> with zero deltas on it, \<open>Range\<close> reports up 3 and down 0.
\<close>

theorem C8_Range_carries_over:
  "Load (Storage (provisioned\<lparr>Storage := empty_storage\<lparr>files :=
        [(''trojan/A'',
          ''{'' @ [quote] @ ''up'' @ [quote] @ '':1,'' @ [quote] @ ''down'' @ [quote] @ '':2}''),
         (''trojan/VGVzdDEyMzQ='', ''{'' @ [quote] @ ''up'' @ [quote] @ '':3}'')]\<rparr>\<rparr>))
     ''trojan/VGVzdDEyMzQ='' = Inr (''{'' @ [quote] @ ''up'' @ [quote] @ '':3}'') \<and>
   Unmarshal json_Traffic_absent (''{'' @ [quote] @ ''up'' @ [quote] @ '':3}'')
     \<lparr>Up = 0, Down = 0\<rparr> = (\<lparr>Up = 3, Down = 0\<rparr>, None) \<and>
   decoded json_Traffic_absent
     (provisioned\<lparr>Storage := empty_storage\<lparr>files :=
        [(''trojan/A'',
          ''{'' @ [quote] @ ''up'' @ [quote] @ '':1,'' @ [quote] @ ''down'' @ [quote] @ '':2}''),
         (''trojan/VGVzdDEyMzQ='', ''{'' @ [quote] @ ''up'' @ [quote] @ '':3}'')]\<rparr>\<rparr>)
     ''trojan/VGVzdDEyMzQ='' = Some \<lparr>Up = 3, Down = 0\<rparr> \<and>
   snd (CaddyUpstream_Range json_Traffic_absent
     (provisioned\<lparr>Storage := empty_storage\<lparr>files :=
        [(''trojan/A'',
          ''{'' @ [quote] @ ''up'' @ [quote] @ '':1,'' @ [quote] @ ''down'' @ [quote] @ '':2}''),
         (''trojan/VGVzdDEyMzQ='', ''{'' @ [quote] @ ''up'' @ [quote] @ '':3}'')]\<rparr>\<rparr>)) =
     [(''A'', 1, 2), (''VGVzdDEyMzQ='', 3, 2)] \<and>
   snd (CaddyUpstream_Consume json_Traffic_absent
     (provisioned\<lparr>Storage := empty_storage\<lparr>files :=
        [(''trojan/A'',
          ''{'' @ [quote] @ ''up'' @ [quote] @ '':1,'' @ [quote] @ ''down'' @ [quote] @ '':2}''),
         (''trojan/VGVzdDEyMzQ='', ''{'' @ [quote] @ ''up'' @ [quote] @ '':3}'')]\<rparr>\<rparr>)
     ''Test1234'' 0 0) = None \<and>
   snd (CaddyUpstream_Range json_Traffic_absent
     (fst (CaddyUpstream_Consume json_Traffic_absent
       (provisioned\<lparr>Storage := empty_storage\<lparr>files :=
          [(''trojan/A'',
            ''{'' @ [quote] @ ''up'' @ [quote] @ '':1,'' @ [quote] @ ''down'' @ [quote] @ '':2}''),
           (''trojan/VGVzdDEyMzQ='', ''{'' @ [quote] @ ''up'' @ [quote] @ '':3}'')]\<rparr>\<rparr>)
       ''Test1234'' 0 0))) =
     [(''A'', 1, 2), (''VGVzdDEyMzQ='', 3, 0)]"
proof -
  let ?b12 = "''{'' @ [quote] @ ''up'' @ [quote] @ '':1,'' @ [quote] @ ''down'' @ [quote] @ '':2}''"
  let ?b30 = "''{'' @ [quote] @ ''up'' @ [quote] @ '':3,'' @ [quote] @ ''down'' @ [quote] @ '':0}''"
  let ?up3 = "''{'' @ [quote] @ ''up'' @ [quote] @ '':3}''"
  let ?key = "''trojan/VGVzdDEyMzQ=''"
  let ?c = "provisioned\<lparr>Storage := empty_storage\<lparr>files :=
        [(''trojan/A'', ?b12), (?key, ?up3)]\<rparr>\<rparr>"
  have enc: "EncodeToString ''Test1234'' = ''VGVzdDEyMzQ=''"
    by (simp add: EncodeToString_eval)
  have ld: "Load (Storage ?c) ?key = Inr ?up3"
    by (simp add: Load_def empty_storage_def)
  have un: "Unmarshal json_Traffic_absent ?up3 \<lparr>Up = 0, Down = 0\<rparr> =
      (\<lparr>Up = 3, Down = 0\<rparr>, None)"
    by (simp add: json_Traffic_absent_def Unmarshal_Traffic_absent_up_3)
  have de: "decoded json_Traffic_absent ?c ?key = Some \<lparr>Up = 3, Down = 0\<rparr>"
    by (simp add: decoded_def Load_def empty_storage_def json_Traffic_absent_def
          Unmarshal_Traffic_absent_up_3)
  have r1: "snd (CaddyUpstream_Range json_Traffic_absent ?c) =
      [(''A'', 1, 2), (''VGVzdDEyMzQ='', 3, 2)]"
    by (simp add: CaddyUpstream_Range_def provisioned_def Provision_def empty_storage_def
          List_def Load_def HasPrefix_def TrimPrefix_def json_Traffic_absent_def
          Unmarshal_Traffic_absent_1_2 Unmarshal_Traffic_absent_up_3)
  have co: "CaddyUpstream_Consume json_Traffic_absent ?c ''Test1234'' 0 0 =
      (provisioned\<lparr>Storage := empty_storage
         \<lparr>files := [(''trojan/A'', ?b12), (?key, ?b30)],
          calls := [CallLock ?key, CallStore ?key ?b30, CallUnlock ?key]\<rparr>\<rparr>, None)"
    by (simp add: CaddyUpstream_Consume_def provisioned_def Provision_def empty_storage_def
          Lock_def Unlock_def Load_def Store_def json_Traffic_absent_def AuthLen_def enc
          Unmarshal_Traffic_absent_up_3 Marshal_Traffic_3_0 Let_def)
  have r2: "snd (CaddyUpstream_Range json_Traffic_absent
      (fst (CaddyUpstream_Consume json_Traffic_absent ?c ''Test1234'' 0 0))) =
      [(''A'', 1, 2), (''VGVzdDEyMzQ='', 3, 0)]"
    unfolding co fst_conv
    by (simp add: CaddyUpstream_Range_def provisioned_def Provision_def empty_storage_def
          List_def Load_def HasPrefix_def TrimPrefix_def json_Traffic_absent_def
          Unmarshal_Traffic_absent_1_2 Unmarshal_Traffic_absent_3_0)
  have ok: "snd (CaddyUpstream_Consume json_Traffic_absent ?c ''Test1234'' 0 0) = None"
    unfolding co by simp
  from ld un de r1 ok r2 show ?thesis by blast
qed

end
